theory Spec2Isabelle
  imports Main "HOL-Library.Sublist"
begin

section \<open>Strings, truthiness and the marker pattern\<close>

text \<open>
  The model follows \<^verbatim>\<open>src/index.ts\<close>. JavaScript strings are modelled as \<^typ>\<open>string\<close>;
  a value that may be \<^verbatim>\<open>undefined\<close> or \<^verbatim>\<open>null\<close> is an \<^typ>\<open>string option\<close>. The code looks
  at single characters only to compare them with \<^verbatim>\<open>#\<close>, the line break, \<^verbatim>\<open>a\<close> to \<^verbatim>\<open>z\<close> and
  \<^verbatim>\<open>0\<close> to \<^verbatim>\<open>9\<close>, and ids and renderings consist of such characters, so a text may be read
  as its bytes. Calls of \<^verbatim>\<open>console.log\<close> have no effect on the engine and are left out.
\<close>

definition newline :: char where
  "newline = CHR 0x0A"

text \<open>JavaScript truthiness of a possibly absent string: absent and empty are falsy.\<close>

fun truthy :: "string option \<Rightarrow> bool" where
  "truthy None = False"
| "truthy (Some t) = (t \<noteq> [])"

text \<open>The character class \<^verbatim>\<open>[a-z0-9]\<close> of the marker pattern.\<close>

definition id_chars :: string where
  "id_chars = ''abcdefghijklmnopqrstuvwxyz0123456789''"

definition is_id_char :: "char \<Rightarrow> bool" where
  "is_id_char c = (c \<in> set id_chars)"

text \<open>
  \<^verbatim>\<open>text.match(/#([a-z0-9]+)\n/)\<close> and its capture group \<^verbatim>\<open>match[1]\<close>: the leftmost
  position at which the pattern matches. At a \<^verbatim>\<open>#\<close> the greedy group takes the longest
  run of class characters; giving characters back cannot help, since the character after a
  shorter run is a class character and never the line break. So the pattern matches at a
  \<^verbatim>\<open>#\<close> exactly when the longest run is non-empty and a line break follows it; otherwise
  the search goes on at the next position. \<^term>\<open>None\<close> is the \<^verbatim>\<open>null\<close> of a failed match.
\<close>

fun matchMarker :: "string \<Rightarrow> string option" where
  "matchMarker [] = None"
| "matchMarker (c # cs) =
     (if c = CHR ''#'' then
        (case (takeWhile is_id_char cs, dropWhile is_id_char cs) of
           (run, d # _) \<Rightarrow> if run \<noteq> [] \<and> d = newline then Some run else matchMarker cs
         | (run, []) \<Rightarrow> matchMarker cs)
      else matchMarker cs)"

text \<open>
  \<^verbatim>\<open>msg.chat.id.toString()\<close>: the decimal numeral of an integer. Chat identifiers are
  integers far below \<^verbatim>\<open>1e21\<close>, the range in which \<^verbatim>\<open>Number.prototype.toString\<close> writes
  plain decimal digits.
\<close>

definition digit_char :: "nat \<Rightarrow> char" where
  "digit_char d = char_of (48 + d)"

fun nat_digits :: "nat \<Rightarrow> string" where
  "nat_digits n = (if n < 10 then [digit_char n] else nat_digits (n div 10) @ [digit_char (n mod 10)])"

declare nat_digits.simps [simp del]

definition toString :: "int \<Rightarrow> string" where
  "toString i = (if i < 0 then CHR ''-'' # nat_digits (nat (- i)) else nat_digits (nat i))"

section \<open>The correlation engine\<close>

text \<open>
  An inbound \<^verbatim>\<open>TelegramBot.Message\<close>, reduced to the three fields \<^verbatim>\<open>handleMessage\<close> reads:
  \<^verbatim>\<open>msg.chat.id\<close>, \<^verbatim>\<open>msg.text\<close> and \<^verbatim>\<open>msg.reply_to_message?.text\<close>.
\<close>

record message =
  msg_chat_id :: int
  msg_text :: "string option"
  msg_reply_to_text :: "string option"

text \<open>
  The module-level state: \<^verbatim>\<open>bot\<close> (only whether it is non-null), the map
  \<^verbatim>\<open>pendingQuestions\<close> and the slot \<^verbatim>\<open>lastQuestionId\<close>. A resolver is the \<^verbatim>\<open>resolve\<close>
  function of a promise; promises are numbered in the order \<^verbatim>\<open>new Promise\<close> creates them
  (\<open>next_promise\<close> is the number of the next one). The effects are kept as logs:
  \<open>resolver_calls\<close> lists every call \<^verbatim>\<open>resolver(msg.text)\<close> in order, \<open>outbox\<close> every text
  handed to \<^verbatim>\<open>bot.sendMessage\<close> together with the chat string whose \<^verbatim>\<open>parseInt\<close> is the
  destination.
\<close>

record engine =
  bot :: bool
  pendingQuestions :: "string \<rightharpoonup> nat"
  lastQuestionId :: "string option"
  next_promise :: nat
  resolver_calls :: "(nat \<times> string) list"
  outbox :: "(string \<times> string) list"

definition initial_engine :: engine where
  "initial_engine =
     \<lparr>bot = True, pendingQuestions = Map.empty, lastQuestionId = None,
      next_promise = 0, resolver_calls = [], outbox = []\<rparr>"

text \<open>
  The target id of \<^verbatim>\<open>handleMessage\<close> (lines 49-60): the capture of the marker in the quoted
  text when that text is truthy and the pattern matches, and \<^verbatim>\<open>lastQuestionId\<close> when
  \<^verbatim>\<open>questionId\<close> is still falsy.
\<close>

definition targetQuestionId :: "message \<Rightarrow> engine \<Rightarrow> string option" where
  "targetQuestionId msg s =
     (let questionId =
            (if truthy (msg_reply_to_text msg)
             then (case msg_reply_to_text msg of Some q \<Rightarrow> matchMarker q | None \<Rightarrow> None)
             else None)
      in if \<not> truthy questionId then lastQuestionId s else questionId)"

text \<open>
  \<^verbatim>\<open>handleMessage\<close> (lines 36-75). \<open>validatedChatId\<close> is the configured \<^verbatim>\<open>CHAT_ID\<close>.
\<close>

definition handleMessage :: "string \<Rightarrow> message \<Rightarrow> engine \<Rightarrow> engine" where
  "handleMessage validatedChatId msg s =
     (if toString (msg_chat_id msg) \<noteq> validatedChatId \<or> \<not> truthy (msg_text msg) then s
      else
        (case (msg_text msg, targetQuestionId msg s) of
           (Some answer, Some questionId) \<Rightarrow>
             (if questionId \<noteq> [] then
                (case pendingQuestions s questionId of
                   Some resolver \<Rightarrow>
                     s\<lparr>resolver_calls := resolver_calls s @ [(resolver, answer)],
                       pendingQuestions := (pendingQuestions s)(questionId := None),
                       lastQuestionId := None\<rparr>
                 | None \<Rightarrow> s)
              else s)
         | _ \<Rightarrow> s))"

text \<open>
  \<^verbatim>\<open>Math.random().toString(36).substring(7)\<close> (line 191). The argument is the string
  \<^verbatim>\<open>Math.random().toString(36)\<close>: \<^verbatim>\<open>0\<close>, or \<^verbatim>\<open>0.\<close> followed by the base-36 digits of the
  fraction. \<^verbatim>\<open>substring(7)\<close> drops the first seven characters and is empty on a shorter
  string.
\<close>

definition is_radix36_fraction :: "string \<Rightarrow> bool" where
  "is_radix36_fraction r =
     (r = ''0'' \<or> (take 2 r = ''0.'' \<and> drop 2 r \<noteq> [] \<and> list_all is_id_char (drop 2 r)))"

definition questionId_of :: "string \<Rightarrow> string" where
  "questionId_of rendered = drop 7 rendered"

text \<open>The template literal of line 196: \<^verbatim>\<open>#\<close>, the id, a line break, the question.\<close>

definition outbound_text :: "string \<Rightarrow> string \<Rightarrow> string" where
  "outbound_text questionId question = CHR ''#'' # questionId @ newline # question"

datatype error =
    BotNotInitialized
  | SendFailed string
  | ArchiverFailed string
  | SizeLimitExceeded

text \<open>What the channel does with a message handed to it: the awaited promise fulfils or rejects.\<close>

datatype send_result = Delivered | Rejected string

text \<open>
  \<^verbatim>\<open>ask_user\<close> (lines 186-213) runs in two synchronous pieces around
  \<^verbatim>\<open>await bot.sendMessage(...)\<close>. The first (lines 187-196) checks \<^verbatim>\<open>bot\<close>, draws the id,
  writes \<^verbatim>\<open>lastQuestionId\<close> and hands the text to the channel. The second (lines 203-205)
  runs once the send has fulfilled: it creates the promise and stores its resolver under
  the id. A rejected send raises out of the handler before the second piece.
\<close>

definition ask_user_send :: "string \<Rightarrow> string \<Rightarrow> string \<Rightarrow> engine \<Rightarrow> error + engine" where
  "ask_user_send validatedChatId rendered question s =
     (if \<not> bot s then Inl BotNotInitialized
      else
        (let questionId = questionId_of rendered
         in Inr (s\<lparr>lastQuestionId := Some questionId,
                    outbox := outbox s @ [(validatedChatId, outbound_text questionId question)]\<rparr>)))"

definition ask_user_register :: "string \<Rightarrow> engine \<Rightarrow> nat \<times> engine" where
  "ask_user_register questionId s =
     (let resolve = next_promise s
      in (resolve,
          s\<lparr>pendingQuestions := (pendingQuestions s)(questionId \<mapsto> resolve),
            next_promise := Suc resolve\<rparr>))"

text \<open>
  A whole call during whose \<^verbatim>\<open>await\<close> no inbound message is handled. The result is the
  error raised, or the promise the caller is suspended on; the caller's answer is the text
  with which that promise's resolver is called.
\<close>

definition ask_user ::
  "string \<Rightarrow> string \<Rightarrow> string \<Rightarrow> send_result \<Rightarrow> engine \<Rightarrow> (error + nat) \<times> engine" where
  "ask_user validatedChatId rendered question outcome s =
     (case ask_user_send validatedChatId rendered question s of
        Inl e \<Rightarrow> (Inl e, s)
      | Inr s1 \<Rightarrow>
          (case outcome of
             Rejected e \<Rightarrow> (Inl (SendFailed e), s1)
           | Delivered \<Rightarrow>
               (case ask_user_register (questionId_of rendered) s1 of
                  (resolve, s2) \<Rightarrow> (Inr resolve, s2))))"

text \<open>Inbound messages are handled one after the other, in delivery order.\<close>

definition handleMessages :: "string \<Rightarrow> message list \<Rightarrow> engine \<Rightarrow> engine" where
  "handleMessages validatedChatId msgs s = fold (handleMessage validatedChatId) msgs s"

section \<open>The archive\<close>

text \<open>
  What \<^verbatim>\<open>fs.readdirSync\<close> and \<^verbatim>\<open>fs.statSync(...).isDirectory()\<close> report below the working
  directory: the entries of a directory in listing order, each a file or a directory.
\<close>

datatype node = File | Directory "(string \<times> node) list"

text \<open>
  \<^verbatim>\<open>path.relative(workingDir, path.join(dirPath, file))\<close>, with \<open>rel\<close> the path of
  \<^verbatim>\<open>dirPath\<close> relative to the working directory (empty for the working directory itself).
\<close>

definition relativePath_of :: "string \<Rightarrow> string \<Rightarrow> string" where
  "relativePath_of rel file = (if rel = [] then file else rel @ CHR ''/'' # file)"

text \<open>
  \<^verbatim>\<open>addFilesFromDirectory\<close> (lines 132-152). The result lists the names given to
  \<^verbatim>\<open>archive.file\<close>, in order. \<open>ignores\<close> is \<^verbatim>\<open>ig.ignores\<close>, the matcher the \<^verbatim>\<open>ignore\<close>
  package builds from the content of \<^verbatim>\<open>.gitignore\<close>. The tree is one that can be listed:
  every entry has a status.
\<close>

fun addFilesFromDirectory :: "(string \<Rightarrow> bool) \<Rightarrow> string \<Rightarrow> (string \<times> node) list \<Rightarrow> string list" where
  "addFilesFromDirectory ignores rel [] = []"
| "addFilesFromDirectory ignores rel ((file, File) # files) =
     (if prefix ''.git'' (relativePath_of rel file) then []
      else if \<not> ignores (relativePath_of rel file) then [relativePath_of rel file]
      else [])
     @ addFilesFromDirectory ignores rel files"
| "addFilesFromDirectory ignores rel ((file, Directory sub) # files) =
     (if prefix ''.git'' (relativePath_of rel file) then []
      else addFilesFromDirectory ignores (relativePath_of rel file) sub)
     @ addFilesFromDirectory ignores rel files"

text \<open>Every file below a directory, by its relative path, in the order of the walk.\<close>

fun all_files :: "string \<Rightarrow> (string \<times> node) list \<Rightarrow> string list" where
  "all_files rel [] = []"
| "all_files rel ((file, File) # files) = relativePath_of rel file # all_files rel files"
| "all_files rel ((file, Directory sub) # files) =
     all_files (relativePath_of rel file) sub @ all_files rel files"

text \<open>
  The two functions of Node's \<^verbatim>\<open>path\<close> module that \<^verbatim>\<open>zipProject\<close> calls, \<^verbatim>\<open>path.basename\<close>
  and \<^verbatim>\<open>path.join\<close>. They belong to the platform, not to this program, and are taken as
  given.
\<close>

record path_module =
  path_basename :: "string \<Rightarrow> string"
  path_join :: "string \<Rightarrow> string \<Rightarrow> string"

text \<open>
  \<^verbatim>\<open>outputPath\<close> (lines 105 and 113): the working directory joined with the project name
  followed by \<^verbatim>\<open>-project.zip\<close>.
\<close>

definition outputPath_of :: "path_module \<Rightarrow> string \<Rightarrow> string" where
  "outputPath_of path workingDir =
     path_join path workingDir (path_basename path workingDir @ ''-project.zip'')"

text \<open>
  The POSIX functions. \<^verbatim>\<open>path.basename\<close> drops trailing separators and returns what follows
  the last separator before them.
\<close>

definition posix_basename :: "string \<Rightarrow> string" where
  "posix_basename p =
     rev (takeWhile (\<lambda>c. c \<noteq> CHR ''/'') (dropWhile (\<lambda>c. c = CHR ''/'') (rev p)))"

text \<open>The segments of a path between its separators; a path of \<open>n\<close> separators has \<open>n + 1\<close>.\<close>

fun split_path :: "string \<Rightarrow> string list" where
  "split_path [] = [[]]"
| "split_path (c # cs) =
     (if c = CHR ''/'' then [] # split_path cs
      else (case split_path cs of seg # segs \<Rightarrow> (c # seg) # segs | [] \<Rightarrow> [[c]]))"

text \<open>
  \<^verbatim>\<open>normalizeString\<close> of the \<^verbatim>\<open>path\<close> module, on segments: empty segments and \<^verbatim>\<open>.\<close> are
  dropped; \<^verbatim>\<open>..\<close> removes the segment before it, unless there is none or it is \<^verbatim>\<open>..\<close> itself, in
  which case \<^verbatim>\<open>..\<close> is kept in a relative path and dropped in an absolute one. The segments
  kept so far are held last first.
\<close>

fun normalize_segments :: "bool \<Rightarrow> string list \<Rightarrow> string list \<Rightarrow> string list" where
  "normalize_segments allowAboveRoot kept [] = rev kept"
| "normalize_segments allowAboveRoot kept (seg # segs) =
     (if seg = [] \<or> seg = ''.'' then normalize_segments allowAboveRoot kept segs
      else if seg = ''..'' then
        (case kept of
           lastSegment # below \<Rightarrow>
             if lastSegment \<noteq> ''..'' then normalize_segments allowAboveRoot below segs
             else if allowAboveRoot then normalize_segments allowAboveRoot (''..'' # kept) segs
             else normalize_segments allowAboveRoot kept segs
         | [] \<Rightarrow>
             if allowAboveRoot then normalize_segments allowAboveRoot [''..''] segs
             else normalize_segments allowAboveRoot kept segs)
      else normalize_segments allowAboveRoot (seg # kept) segs)"

fun join_segments :: "string list \<Rightarrow> string" where
  "join_segments [] = []"
| "join_segments [seg] = seg"
| "join_segments (seg # segs) = seg @ CHR ''/'' # join_segments segs"

text \<open>\<^verbatim>\<open>path.normalize\<close>.\<close>

definition posix_normalize :: "string \<Rightarrow> string" where
  "posix_normalize p =
     (if p = [] then ''.''
      else
        (let isAbsolute = (hd p = CHR ''/'');
             trailingSeparator = (last p = CHR ''/'');
             body = join_segments (normalize_segments (\<not> isAbsolute) [] (split_path p))
         in if body = [] then (if isAbsolute then ''/'' else if trailingSeparator then ''./'' else ''.'')
            else (if isAbsolute then ''/'' else []) @ body @ (if trailingSeparator then ''/'' else [])))"

text \<open>
  \<^verbatim>\<open>path.join\<close> of two arguments: the non-empty ones, with a separator between them,
  normalised; \<^verbatim>\<open>.\<close> when both are empty.
\<close>

definition posix_join :: "string \<Rightarrow> string \<Rightarrow> string" where
  "posix_join a b =
     (let joined = (if a = [] then b else if b = [] then a else a @ CHR ''/'' # b)
      in if joined = [] then ''.'' else posix_normalize joined)"

definition posix_path :: path_module where
  "posix_path = \<lparr>path_basename = posix_basename, path_join = posix_join\<rparr>"

definition TWO_GB :: nat where
  "TWO_GB = 2 * 1024 * 1024 * 1024"

text \<open>
  A zip file on disk: the entry names it holds and the size \<^verbatim>\<open>fs.statSync\<close> reports. The
  disk is the map from paths to the zip files present.
\<close>

record artifact =
  art_entries :: "string list"
  art_size :: nat

text \<open>
  How the archiver run ends: the output stream closes with so many bytes written, or the
  archive raises an error, with whatever is at the output path at that moment.
\<close>

datatype archive_result = Archived nat | ArchiveError string "artifact option"

text \<open>\<^verbatim>\<open>directory || process.cwd()\<close> (line 104); \<open>cwd\<close> is \<^verbatim>\<open>process.cwd()\<close>.\<close>

definition workingDir_of :: "string option \<Rightarrow> string \<Rightarrow> string" where
  "workingDir_of directory cwd = (case directory of Some d \<Rightarrow> if d \<noteq> [] then d else cwd | None \<Rightarrow> cwd)"

text \<open>\<^verbatim>\<open>zipProject\<close> (lines 103-167).\<close>

definition zipProject ::
  "path_module \<Rightarrow> string option \<Rightarrow> string \<Rightarrow> (string \<Rightarrow> bool) \<Rightarrow> (string \<times> node) list \<Rightarrow>
   archive_result \<Rightarrow> (string \<rightharpoonup> artifact) \<Rightarrow> (error + string) \<times> (string \<rightharpoonup> artifact)" where
  "zipProject path directory cwd ignores tree run disk =
     (let workingDir = workingDir_of directory cwd;
          outputPath = outputPath_of path workingDir
      in case run of
           ArchiveError e left \<Rightarrow> (Inl (ArchiverFailed e), disk(outputPath := left))
         | Archived bytes \<Rightarrow>
             (let disk1 = disk(outputPath \<mapsto>
                    \<lparr>art_entries = addFilesFromDirectory ignores [] tree, art_size = bytes\<rparr>)
              in if bytes > TWO_GB
                 then (Inl SizeLimitExceeded, disk1(outputPath := None))
                 else (Inr outputPath, disk1)))"

text \<open>
  The \<^verbatim>\<open>zip_project\<close> tool (lines 263-288): \<^verbatim>\<open>zipProject\<close> is awaited outside the
  \<^verbatim>\<open>try\<close>, so its error reaches the caller as it is; the \<^verbatim>\<open>finally\<close> block unlinks the zip
  file whether the document was sent or not.
\<close>

definition zip_project ::
  "engine \<Rightarrow> path_module \<Rightarrow> string option \<Rightarrow> string \<Rightarrow> (string \<Rightarrow> bool) \<Rightarrow>
   (string \<times> node) list \<Rightarrow> archive_result \<Rightarrow> send_result \<Rightarrow> (string \<rightharpoonup> artifact) \<Rightarrow>
   (error + string) \<times> (string \<rightharpoonup> artifact)" where
  "zip_project s path directory cwd ignores tree run outcome disk =
     (if \<not> bot s then (Inl BotNotInitialized, disk)
      else
        (case zipProject path directory cwd ignores tree run disk of
           (Inl e, disk1) \<Rightarrow> (Inl e, disk1)
         | (Inr zipFilePath, disk1) \<Rightarrow>
             (let disk2 = (if disk1 zipFilePath \<noteq> None then disk1(zipFilePath := None) else disk1)
              in case outcome of
                   Delivered \<Rightarrow> (Inr ''Project zipped and sent successfully'', disk2)
                 | Rejected e \<Rightarrow> (Inl (SendFailed e), disk2))))"

section \<open>Notions used in the statements\<close>

text \<open>
  A message is un-threaded when it quotes no message, or when the marker pattern finds
  nothing in the quoted text.
\<close>

definition unthreaded :: "message \<Rightarrow> bool" where
  "unthreaded msg =
     (case msg_reply_to_text msg of None \<Rightarrow> True | Some quoted \<Rightarrow> matchMarker quoted = None)"

text \<open>
  The states of the engine: the initial one, and those that the first piece of \<^verbatim>\<open>ask_user\<close>,
  its second piece, or \<^verbatim>\<open>handleMessage\<close> make of a state already reached. The pieces of
  different calls may interleave in any order; the relation does not ask that a second piece
  follows its first, so it covers every run of the program and more.
\<close>

inductive reachable :: "string \<Rightarrow> engine \<Rightarrow> bool" for validatedChatId :: string where
  start: "reachable validatedChatId initial_engine"
| send: "reachable validatedChatId s \<Longrightarrow>
     ask_user_send validatedChatId rendered question s = Inr s' \<Longrightarrow> reachable validatedChatId s'"
| register: "reachable validatedChatId s \<Longrightarrow>
     ask_user_register questionId s = (resolve, s') \<Longrightarrow> reachable validatedChatId s'"
| inbound: "reachable validatedChatId s \<Longrightarrow>
     reachable validatedChatId (handleMessage validatedChatId msg s)"

text \<open>
  The invariant of \<^verbatim>\<open>pendingQuestions\<close>: every key maps to a resolver of a promise already
  created and not yet called, no two keys share a resolver, no resolver has been called
  twice, and every resolver called belongs to a promise already created.
\<close>

definition live_resolvers :: "engine \<Rightarrow> bool" where
  "live_resolvers s \<longleftrightarrow>
     (\<forall>k r. pendingQuestions s k = Some r \<longrightarrow>
        r < next_promise s \<and> r \<notin> fst ` set (resolver_calls s)) \<and>
     (\<forall>k k' r. pendingQuestions s k = Some r \<longrightarrow> pendingQuestions s k' = Some r \<longrightarrow> k = k') \<and>
     distinct (map fst (resolver_calls s)) \<and>
     (\<forall>r \<in> fst ` set (resolver_calls s). r < next_promise s)"

subsection \<open>Example runs\<close>

text \<open>
  The chat \<^verbatim>\<open>42\<close> is the authorized one. A first question is asked with the draw rendered
  \<^verbatim>\<open>0.meeti82mvyr\<close> (id \<^verbatim>\<open>82mvyr\<close>), then a second with \<^verbatim>\<open>0.i7lwr5xk7wp\<close> (id \<^verbatim>\<open>5xk7wp\<close>).
\<close>

definition example_first :: engine where
  "example_first = snd (ask_user ''42'' ''0.meeti82mvyr'' ''First?'' Delivered initial_engine)"

definition example_both :: engine where
  "example_both = snd (ask_user ''42'' ''0.i7lwr5xk7wp'' ''Second?'' Delivered example_first)"


text \<open>The two questions and a third, pending under the id \<^verbatim>\<open>abc123\<close>.\<close>

definition example_abc123 :: engine where
  "example_abc123 =
     example_both\<lparr>pendingQuestions := (pendingQuestions example_both)(''abc123'' \<mapsto> 7),
                   next_promise := 8\<rparr>"

text \<open>A question asked with the draw \<^verbatim>\<open>0.5\<close>, rendered \<^verbatim>\<open>0.i\<close> in base 36.\<close>

definition example_empty_id :: engine where
  "example_empty_id = snd (ask_user ''42'' ''0.i'' ''What is your name?'' Delivered initial_engine)"

text \<open>Replies from the authorized chat: three that quote a question, and a plain one.\<close>

definition reply_to_first :: message where
  "reply_to_first =
     \<lparr>msg_chat_id = 42, msg_text = Some ''yes'',
      msg_reply_to_text = Some (outbound_text ''82mvyr'' ''First?'')\<rparr>"

definition reply_to_abc123 :: message where
  "reply_to_abc123 =
     \<lparr>msg_chat_id = 42, msg_text = Some ''Ada'',
      msg_reply_to_text = Some (outbound_text ''abc123'' ''What is your name?'')\<rparr>"

definition reply_to_empty_id :: message where
  "reply_to_empty_id =
     \<lparr>msg_chat_id = 42, msg_text = Some ''Ada'',
      msg_reply_to_text = Some (outbound_text [] ''What is your name?'')\<rparr>"

definition plain_reply :: message where
  "plain_reply = \<lparr>msg_chat_id = 42, msg_text = Some ''no'', msg_reply_to_text = None\<rparr>"




text \<open>The matcher of an empty or absent \<^verbatim>\<open>.gitignore\<close>, and a small project.\<close>

definition no_ignore_rules :: "string \<Rightarrow> bool" where
  "no_ignore_rules relativePath = False"

definition example_tree :: "(string \<times> node) list" where
  "example_tree =
     [(''.git'', Directory [(''HEAD'', File)]),
      (''.gitattributes'', File),
      (''.github'', Directory [(''workflows'', Directory [(''ci.yml'', File)])]),
      (''src'', Directory [(''index.ts'', File)]),
      (''README.md'', File)]"

section \<open>Facts about the engine and the examples\<close>

text \<open>The two outcomes of \<^verbatim>\<open>handleMessage\<close>: it resolves one question, or it changes nothing.\<close>

lemma handleMessage_resolve:
  assumes "toString (msg_chat_id msg) = c" "msg_text msg = Some answer" "answer \<noteq> []"
    "targetQuestionId msg s = Some q" "q \<noteq> []" "pendingQuestions s q = Some r"
  shows "handleMessage c msg s =
     s\<lparr>resolver_calls := resolver_calls s @ [(r, answer)],
       pendingQuestions := (pendingQuestions s)(q := None),
       lastQuestionId := None\<rparr>"
  using assms by (simp add: handleMessage_def)

lemma handleMessage_unauthorized:
  "toString (msg_chat_id msg) \<noteq> c \<Longrightarrow> handleMessage c msg s = s"
  by (simp add: handleMessage_def)

lemma handleMessage_no_text:
  "\<not> truthy (msg_text msg) \<Longrightarrow> handleMessage c msg s = s"
  by (simp add: handleMessage_def)

lemma handleMessage_no_target:
  "targetQuestionId msg s = None \<Longrightarrow> handleMessage c msg s = s"
  by (simp add: handleMessage_def split: option.split)

lemma handleMessage_empty_target:
  "targetQuestionId msg s = Some [] \<Longrightarrow> handleMessage c msg s = s"
  by (simp add: handleMessage_def split: option.split)

lemma handleMessage_not_pending:
  "targetQuestionId msg s = Some q \<Longrightarrow> pendingQuestions s q = None \<Longrightarrow> handleMessage c msg s = s"
  by (simp add: handleMessage_def split: option.split)

lemma handleMessage_cases:
  obtains (discard) "handleMessage c msg s = s"
  | (resolve) answer q r where "toString (msg_chat_id msg) = c" "msg_text msg = Some answer"
      "answer \<noteq> []" "targetQuestionId msg s = Some q" "q \<noteq> []" "pendingQuestions s q = Some r"
proof (cases "toString (msg_chat_id msg) = c \<and> truthy (msg_text msg)")
  case False
  then have "handleMessage c msg s = s"
    using handleMessage_unauthorized handleMessage_no_text by blast
  then show ?thesis by (rule discard)
next
  case True
  then obtain answer where a: "msg_text msg = Some answer" "answer \<noteq> []"
    by (cases "msg_text msg") simp_all
  show ?thesis
  proof (cases "targetQuestionId msg s")
    case None
    then show ?thesis using discard handleMessage_no_target by blast
  next
    case (Some q)
    show ?thesis
    proof (cases "q = []")
      case True
      with Some show ?thesis using discard handleMessage_empty_target by blast
    next
      case qne: False
      show ?thesis
      proof (cases "pendingQuestions s q")
        case None
        with Some show ?thesis using discard handleMessage_not_pending by blast
      next
        case (Some r)
        show ?thesis
          using resolve [OF _ a \<open>targetQuestionId msg s = Some q\<close> qne Some] True by blast
      qed
    qed
  qed
qed

lemma ask_user_delivered:
  "bot s \<Longrightarrow> ask_user c r q Delivered s =
     (Inr (next_promise s),
      s\<lparr>lastQuestionId := Some (questionId_of r),
        outbox := outbox s @ [(c, outbound_text (questionId_of r) q)],
        pendingQuestions := (pendingQuestions s)(questionId_of r \<mapsto> next_promise s),
        next_promise := Suc (next_promise s)\<rparr>)"
  by (simp add: ask_user_def ask_user_send_def ask_user_register_def Let_def)


lemma outbound_text_nonempty: "outbound_text questionId question \<noteq> []"
  by (simp add: outbound_text_def)

lemma newline_not_id_char: "\<not> is_id_char newline"
  by (simp add: is_id_char_def id_chars_def newline_def)

text \<open>
  What \<^term>\<open>matchMarker\<close> returns is a non-empty run of class characters that stands in the
  text between a \<^verbatim>\<open>#\<close> and a line break.
\<close>

lemma matchMarker_sound:
  "matchMarker t = Some r \<Longrightarrow>
     r \<noteq> [] \<and> list_all is_id_char r \<and> (\<exists>pre post. t = pre @ CHR ''#'' # r @ newline # post)"
proof (induction t)
  case Nil
  then show ?case by simp
next
  case (Cons c cs)
  show ?case
  proof (cases "c = CHR ''#'' \<and> takeWhile is_id_char cs \<noteq> [] \<and>
                (\<exists>rest. dropWhile is_id_char cs = newline # rest)")
    case True
    then obtain rest where rest: "dropWhile is_id_char cs = newline # rest" by blast
    from True rest Cons.prems have r: "r = takeWhile is_id_char cs" by simp
    have "cs = takeWhile is_id_char cs @ dropWhile is_id_char cs" by simp
    with rest r have "c # cs = [] @ CHR ''#'' # r @ newline # rest" using True by simp
    then have ex: "\<exists>pre post. c # cs = pre @ CHR ''#'' # r @ newline # post" by blast
    have "list_all is_id_char r"
      unfolding r list_all_iff using set_takeWhileD by fastforce
    moreover have "r \<noteq> []" using True r by simp
    ultimately show ?thesis using ex by simp
  next
    case False
    then have "matchMarker (c # cs) = matchMarker cs"
      by (auto split: list.splits)
    with Cons.prems have "matchMarker cs = Some r" by simp
    from Cons.IH [OF this] obtain pre post where
      "r \<noteq> []" "list_all is_id_char r" "cs = pre @ CHR ''#'' # r @ newline # post" by blast
    then have "c # cs = (c # pre) @ CHR ''#'' # r @ newline # post" by simp
    with \<open>r \<noteq> []\<close> \<open>list_all is_id_char r\<close> show ?thesis by blast
  qed
qed

lemma marker_round_trip:
  assumes "questionId \<noteq> []" and "list_all is_id_char questionId"
  shows "matchMarker (outbound_text questionId question) = Some questionId"
proof -
  have all: "\<And>x. x \<in> set questionId \<Longrightarrow> is_id_char x"
    using assms(2) by (simp add: list_all_iff)
  have t: "takeWhile is_id_char (questionId @ newline # question) = questionId"
    using all by (simp add: takeWhile_append2 newline_not_id_char)
  have d: "dropWhile is_id_char (questionId @ newline # question) = newline # question"
    using all by (simp add: dropWhile_append2 newline_not_id_char)
  show ?thesis
    using assms(1) by (simp add: outbound_text_def t d)
qed

lemma generated_id_chars:
  assumes "is_radix36_fraction rendered"
  shows "list_all is_id_char (questionId_of rendered)"
proof (cases "rendered = ''0''")
  case True
  then show ?thesis by (simp add: questionId_of_def)
next
  case False
  with assms have "list_all is_id_char (drop 2 rendered)"
    by (simp add: is_radix36_fraction_def)
  then have "list_all is_id_char (drop 5 (drop 2 rendered))"
    unfolding list_all_iff using in_set_dropD by fast
  then show ?thesis by (simp add: questionId_of_def)
qed

lemma unthreaded_target: "unthreaded msg \<Longrightarrow> targetQuestionId msg s = lastQuestionId s"
  by (cases "msg_reply_to_text msg") (simp_all add: unthreaded_def targetQuestionId_def)

lemma threaded_target:
  assumes "msg_reply_to_text msg = Some quoted" and "matchMarker quoted = Some questionId"
  shows "targetQuestionId msg s = Some questionId"
proof -
  have "quoted \<noteq> []" using assms(2) by auto
  moreover have "questionId \<noteq> []" using matchMarker_sound [OF assms(2)] by simp
  ultimately show ?thesis using assms by (simp add: targetQuestionId_def)
qed

text \<open>
  The fallback is dead for an id \<open>q\<close> when \<^verbatim>\<open>lastQuestionId\<close> is \<^verbatim>\<open>null\<close>, or holds \<open>q\<close> and
  \<open>q\<close> is empty or not pending. Inbound messages keep it dead, and while it is dead every
  un-threaded message is discarded.
\<close>

lemma fallback_dead_preserved:
  assumes "lastQuestionId s = None \<or>
           (lastQuestionId s = Some q \<and> (q = [] \<or> pendingQuestions s q = None))"
  shows "lastQuestionId (handleMessage c msg s) = None \<or>
         (lastQuestionId (handleMessage c msg s) = Some q \<and>
          (q = [] \<or> pendingQuestions (handleMessage c msg s) q = None))"
proof (cases rule: handleMessage_cases [of c msg s])
  case discard
  with assms show ?thesis by simp
next
  case (resolve answer q' r)
  show ?thesis by (simp add: handleMessage_resolve [OF resolve])
qed

lemma fallback_dead_preserved_all:
  assumes "lastQuestionId s = None \<or>
           (lastQuestionId s = Some q \<and> (q = [] \<or> pendingQuestions s q = None))"
  shows "lastQuestionId (handleMessages c msgs s) = None \<or>
         (lastQuestionId (handleMessages c msgs s) = Some q \<and>
          (q = [] \<or> pendingQuestions (handleMessages c msgs s) q = None))"
  using assms
proof (induction msgs arbitrary: s)
  case Nil
  then show ?case by (simp add: handleMessages_def)
next
  case (Cons m msgs)
  have "handleMessages c (m # msgs) s = handleMessages c msgs (handleMessage c m s)"
    by (simp add: handleMessages_def)
  then show ?case
    using Cons.IH [OF fallback_dead_preserved [OF Cons.prems, of c m]] by simp
qed

lemma fallback_dead_discards:
  assumes "lastQuestionId s = None \<or>
           (lastQuestionId s = Some q \<and> (q = [] \<or> pendingQuestions s q = None))"
    and "unthreaded msg"
  shows "handleMessage c msg s = s"
proof -
  have t: "targetQuestionId msg s = lastQuestionId s" by (rule unthreaded_target [OF assms(2)])
  from assms(1) consider "lastQuestionId s = None" | "lastQuestionId s = Some []"
    | "lastQuestionId s = Some q" "pendingQuestions s q = None"
    by auto
  then show ?thesis
  proof cases
    case 1
    with t show ?thesis using handleMessage_no_target by simp
  next
    case 2
    with t show ?thesis using handleMessage_empty_target by simp
  next
    case 3
    with t show ?thesis using handleMessage_not_pending by simp
  qed
qed

lemma fallback_dead_discards_later:
  assumes "lastQuestionId s = None \<or>
           (lastQuestionId s = Some q \<and> (q = [] \<or> pendingQuestions s q = None))"
    and "unthreaded msg"
  shows "handleMessage c msg (handleMessages c msgs s) = handleMessages c msgs s"
  by (rule fallback_dead_discards [OF fallback_dead_preserved_all [OF assms(1)] assms(2)])


lemma toString_42: "toString 42 = ''42''"
  by code_simp

lemma example_first_eq:
  "example_first =
     \<lparr>bot = True, pendingQuestions = [''82mvyr'' \<mapsto> 0], lastQuestionId = Some ''82mvyr'',
      next_promise = 1, resolver_calls = [],
      outbox = [(''42'', outbound_text ''82mvyr'' ''First?'')]\<rparr>"
  by (simp add: example_first_def ask_user_delivered initial_engine_def questionId_of_def)

lemma example_both_eq:
  "example_both =
     \<lparr>bot = True, pendingQuestions = [''82mvyr'' \<mapsto> 0, ''5xk7wp'' \<mapsto> 1],
      lastQuestionId = Some ''5xk7wp'', next_promise = 2, resolver_calls = [],
      outbox = [(''42'', outbound_text ''82mvyr'' ''First?''),
                (''42'', outbound_text ''5xk7wp'' ''Second?'')]\<rparr>"
  by (simp add: example_both_def example_first_eq ask_user_delivered questionId_of_def)

lemma ask_first: "ask_user ''42'' ''0.meeti82mvyr'' ''First?'' Delivered initial_engine = (Inr 0, example_first)"
  by (simp add: example_first_def ask_user_delivered initial_engine_def)

lemma ask_second: "ask_user ''42'' ''0.i7lwr5xk7wp'' ''Second?'' Delivered example_first = (Inr 1, example_both)"
  by (simp add: example_both_def ask_user_delivered example_first_eq)

lemma matchMarker_first: "matchMarker (outbound_text ''82mvyr'' ''First?'') = Some ''82mvyr''"
  by (simp add: outbound_text_def is_id_char_def id_chars_def newline_def)

lemma matchMarker_abc123:
  "matchMarker (outbound_text ''abc123'' ''What is your name?'') = Some ''abc123''"
  by (simp add: outbound_text_def is_id_char_def id_chars_def newline_def)

lemma target_reply_to_first: "targetQuestionId reply_to_first s = Some ''82mvyr''"
  by (simp add: targetQuestionId_def reply_to_first_def matchMarker_first outbound_text_nonempty)

lemma target_plain_reply: "targetQuestionId plain_reply s = lastQuestionId s"
  by (simp add: targetQuestionId_def plain_reply_def)

lemma after_reply_to_first:
  "handleMessage ''42'' reply_to_first example_both =
     \<lparr>bot = True, pendingQuestions = [''5xk7wp'' \<mapsto> 1],
      lastQuestionId = None, next_promise = 2, resolver_calls = [(0, ''yes'')],
      outbox = [(''42'', outbound_text ''82mvyr'' ''First?''),
                (''42'', outbound_text ''5xk7wp'' ''Second?'')]\<rparr>"
proof -
  have "handleMessage ''42'' reply_to_first example_both =
      example_both\<lparr>resolver_calls := resolver_calls example_both @ [(0, ''yes'')],
       pendingQuestions := (pendingQuestions example_both)(''82mvyr'' := None),
       lastQuestionId := None\<rparr>"
    by (rule handleMessage_resolve [OF _ _ _ target_reply_to_first])
       (simp_all add: reply_to_first_def toString_42 example_both_eq)
  then show ?thesis
    by (simp add: example_both_eq fun_upd_twist)
qed

section \<open>The claims\<close>

subsection \<open>C1: what resolving a question does to \<^verbatim>\<open>lastQuestionId\<close>\<close>

text \<open>
  Claim C1 says that \<^verbatim>\<open>handleMessage\<close> clears \<^verbatim>\<open>lastQuestionId\<close> only when the resolved id
  equals it. Counterexample to C1: two questions are pending and \<^verbatim>\<open>lastQuestionId\<close> holds the
  id of the second. A reply quoting the marker of the first resolves the first, whose id
  differs from \<^verbatim>\<open>lastQuestionId\<close>, and \<^verbatim>\<open>lastQuestionId\<close> is cleared all the same. The plain
  reply that follows is discarded, and the second question stays pending.
\<close>

theorem clear_on_other_id_counterexample:
  "targetQuestionId reply_to_first example_both = Some ''82mvyr'' \<and>
   pendingQuestions example_both ''82mvyr'' = Some 0 \<and>
   lastQuestionId example_both = Some ''5xk7wp'' \<and>
   lastQuestionId (handleMessage ''42'' reply_to_first example_both) = None \<and>
   handleMessage ''42'' plain_reply (handleMessage ''42'' reply_to_first example_both) =
     handleMessage ''42'' reply_to_first example_both \<and>
   pendingQuestions (handleMessage ''42'' reply_to_first example_both) ''5xk7wp'' = Some 1"
proof -
  have "handleMessage ''42'' plain_reply (handleMessage ''42'' reply_to_first example_both) =
     handleMessage ''42'' reply_to_first example_both"
    by (rule handleMessage_no_target) (simp add: target_plain_reply after_reply_to_first)
  then show ?thesis
    by (simp add: target_reply_to_first after_reply_to_first) (simp add: example_both_eq)
qed

text \<open>
  Claim C1 as the code has it (line 70): whenever \<^verbatim>\<open>handleMessage\<close> resolves a pending
  question, \<^verbatim>\<open>lastQuestionId\<close> is \<^verbatim>\<open>null\<close> afterwards, whatever it held before and whichever
  id was resolved; the resolver is called once with the message text and only that entry is
  removed. From then on, and until \<^verbatim>\<open>ask_user\<close> runs again, every un-threaded message is
  discarded, whatever messages are handled before it.
\<close>

theorem handleMessage_clears_lastQuestionId:
  assumes "toString (msg_chat_id msg) = validatedChatId"
    and "msg_text msg = Some answer" and "answer \<noteq> []"
    and "targetQuestionId msg s = Some questionId" and "questionId \<noteq> []"
    and "pendingQuestions s questionId = Some resolver"
  shows "lastQuestionId (handleMessage validatedChatId msg s) = None \<and>
         resolver_calls (handleMessage validatedChatId msg s) = resolver_calls s @ [(resolver, answer)] \<and>
         pendingQuestions (handleMessage validatedChatId msg s) = (pendingQuestions s)(questionId := None) \<and>
         (\<forall>msgs later. unthreaded later \<longrightarrow>
            handleMessage validatedChatId later
              (handleMessages validatedChatId msgs (handleMessage validatedChatId msg s)) =
            handleMessages validatedChatId msgs (handleMessage validatedChatId msg s))"
proof -
  let ?s' = "handleMessage validatedChatId msg s"
  have s': "?s' = s\<lparr>resolver_calls := resolver_calls s @ [(resolver, answer)],
       pendingQuestions := (pendingQuestions s)(questionId := None),
       lastQuestionId := None\<rparr>"
    by (rule handleMessage_resolve [OF assms])
  have dead: "lastQuestionId ?s' = None \<or>
      (lastQuestionId ?s' = Some questionId \<and> (questionId = [] \<or> pendingQuestions ?s' questionId = None))"
    by (simp add: s')
  have later: "\<forall>msgs later. unthreaded later \<longrightarrow>
      handleMessage validatedChatId later (handleMessages validatedChatId msgs ?s') =
        handleMessages validatedChatId msgs ?s'"
    using fallback_dead_discards_later [OF dead] by blast
  show ?thesis using later by (simp add: s')
qed

text \<open>
  The theorem for C1 at the two pending questions above, with a reply quoting the first and
  a plain reply after it.
\<close>

theorem handleMessage_clears_lastQuestionId_witness:
  "lastQuestionId example_both = Some ''5xk7wp'' \<and>
   lastQuestionId (handleMessage ''42'' reply_to_first example_both) = None \<and>
   resolver_calls (handleMessage ''42'' reply_to_first example_both) = [(0, ''yes'')] \<and>
   pendingQuestions (handleMessage ''42'' reply_to_first example_both) =
     (pendingQuestions example_both)(''82mvyr'' := None) \<and>
   handleMessage ''42'' plain_reply (handleMessage ''42'' reply_to_first example_both) =
     handleMessage ''42'' reply_to_first example_both"
proof -
  have a: "toString (msg_chat_id reply_to_first) = ''42''"
    by (simp add: reply_to_first_def toString_42)
  have b: "msg_text reply_to_first = Some ''yes''" by (simp add: reply_to_first_def)
  have c: "''yes'' \<noteq> []" by simp
  have d: "''82mvyr'' \<noteq> []" by simp
  have e: "pendingQuestions example_both ''82mvyr'' = Some 0" by (simp add: example_both_eq)
  have f: "resolver_calls example_both = []" by (simp add: example_both_eq)
  have g: "lastQuestionId example_both = Some ''5xk7wp''" by (simp add: example_both_eq)
  have u: "unthreaded plain_reply" by (simp add: unthreaded_def plain_reply_def)
  note inst = handleMessage_clears_lastQuestionId [OF a b c target_reply_to_first d e]
  from inst have "handleMessage ''42'' plain_reply
      (handleMessages ''42'' [] (handleMessage ''42'' reply_to_first example_both)) =
      handleMessages ''42'' [] (handleMessage ''42'' reply_to_first example_both)"
    using u by blast
  then have h: "handleMessage ''42'' plain_reply (handleMessage ''42'' reply_to_first example_both) =
     handleMessage ''42'' reply_to_first example_both"
    by (simp add: handleMessages_def)
  show ?thesis using inst f g h by simp
qed

subsection \<open>C2: the order of sending and inserting in \<^verbatim>\<open>ask_user\<close>\<close>

text \<open>
  Claim C2 says that the pending entry is inserted before the text is sent. Counterexample to
  C2: in the state in which the first question has just been handed to the channel, the
  outbox holds the composed text and \<^verbatim>\<open>pendingQuestions\<close> has no entry for its id.
\<close>

theorem send_before_insert_counterexample:
  "outbox (projr (ask_user_send ''42'' ''0.meeti82mvyr'' ''First?'' initial_engine)) =
     [(''42'', outbound_text ''82mvyr'' ''First?'')] \<and>
   pendingQuestions (projr (ask_user_send ''42'' ''0.meeti82mvyr'' ''First?'' initial_engine))
     ''82mvyr'' = None"
  by (simp add: ask_user_send_def initial_engine_def questionId_of_def Let_def)

text \<open>
  Claim C2 as the code has it (lines 191-205): \<^verbatim>\<open>ask_user\<close> hands the composed text to the
  channel with \<^verbatim>\<open>lastQuestionId\<close> already set and \<^verbatim>\<open>pendingQuestions\<close> unchanged; the entry
  for the id is inserted after the send has fulfilled, and is never inserted when the send
  is rejected.
\<close>

theorem ask_user_inserts_after_send:
  assumes "bot s"
  shows "\<exists>s1. ask_user_send validatedChatId rendered question s = Inr s1 \<and>
           outbox s1 = outbox s @ [(validatedChatId, outbound_text (questionId_of rendered) question)] \<and>
           lastQuestionId s1 = Some (questionId_of rendered) \<and>
           pendingQuestions s1 = pendingQuestions s \<and>
           ask_user validatedChatId rendered question Delivered s =
             (Inr (next_promise s),
              s1\<lparr>pendingQuestions := (pendingQuestions s)(questionId_of rendered \<mapsto> next_promise s),
                 next_promise := Suc (next_promise s)\<rparr>) \<and>
           ask_user validatedChatId rendered question (Rejected e) s = (Inl (SendFailed e), s1)"
  using assms
  by (simp add: ask_user_def ask_user_send_def ask_user_register_def Let_def)

text \<open>The theorem for C2 at the first question asked of the initial engine.\<close>

theorem ask_user_inserts_after_send_witness:
  "\<exists>s1. ask_user_send ''42'' ''0.meeti82mvyr'' ''First?'' initial_engine = Inr s1 \<and>
      outbox s1 = [(''42'', outbound_text ''82mvyr'' ''First?'')] \<and>
      pendingQuestions s1 ''82mvyr'' = None \<and>
      pendingQuestions (snd (ask_user ''42'' ''0.meeti82mvyr'' ''First?'' Delivered initial_engine))
        ''82mvyr'' = Some 0"
proof -
  have b: "bot initial_engine" by (simp add: initial_engine_def)
  have q: "questionId_of ''0.meeti82mvyr'' = ''82mvyr''" by (simp add: questionId_of_def)
  have i: "outbox initial_engine = []" "pendingQuestions initial_engine = Map.empty"
    "next_promise initial_engine = 0"
    by (simp_all add: initial_engine_def)
  from ask_user_inserts_after_send [OF b, of "''42''" "''0.meeti82mvyr''" "''First?''" "[]"]
  obtain s1 where s1: "ask_user_send ''42'' ''0.meeti82mvyr'' ''First?'' initial_engine = Inr s1"
      "outbox s1 = outbox initial_engine @ [(''42'', outbound_text (questionId_of ''0.meeti82mvyr'') ''First?'')]"
      "pendingQuestions s1 = pendingQuestions initial_engine"
      "ask_user ''42'' ''0.meeti82mvyr'' ''First?'' Delivered initial_engine =
             (Inr (next_promise initial_engine),
              s1\<lparr>pendingQuestions := (pendingQuestions initial_engine)(questionId_of ''0.meeti82mvyr'' \<mapsto> next_promise initial_engine),
                 next_promise := Suc (next_promise initial_engine)\<rparr>)"
    by blast
  show ?thesis
    by (rule exI [of _ s1]) (simp add: s1 q i)
qed

subsection \<open>C3: a threaded reply\<close>

text \<open>
  Claim C3: in every engine state in which \<^verbatim>\<open>abc123\<close> is pending, whatever else is pending
  and whatever \<^verbatim>\<open>lastQuestionId\<close> holds, a message from the authorized chat with text \<^verbatim>\<open>Ada\<close>
  that quotes the outbound text of \<^verbatim>\<open>abc123\<close> calls the resolver of \<^verbatim>\<open>abc123\<close> with \<^verbatim>\<open>Ada\<close>,
  calls no other resolver, and removes that entry and no other.
\<close>

theorem threaded_reply_resolves_abc123:
  assumes "pendingQuestions s ''abc123'' = Some resolver"
    and "toString (msg_chat_id msg) = validatedChatId"
    and "msg_text msg = Some ''Ada''"
    and "msg_reply_to_text msg = Some (outbound_text ''abc123'' ''What is your name?'')"
  shows "resolver_calls (handleMessage validatedChatId msg s) = resolver_calls s @ [(resolver, ''Ada'')] \<and>
         pendingQuestions (handleMessage validatedChatId msg s) = (pendingQuestions s)(''abc123'' := None)"
proof -
  have t: "targetQuestionId msg s = Some ''abc123''"
    using assms(4) by (simp add: targetQuestionId_def matchMarker_abc123 outbound_text_nonempty)
  have "handleMessage validatedChatId msg s =
     s\<lparr>resolver_calls := resolver_calls s @ [(resolver, ''Ada'')],
       pendingQuestions := (pendingQuestions s)(''abc123'' := None),
       lastQuestionId := None\<rparr>"
    by (rule handleMessage_resolve [OF assms(2) assms(3) _ t _ assms(1)]) simp_all
  then show ?thesis by simp
qed

text \<open>The theorem for C3 with three questions pending and \<^verbatim>\<open>lastQuestionId\<close> on another one.\<close>

theorem threaded_reply_resolves_abc123_witness:
  "resolver_calls (handleMessage ''42'' reply_to_abc123 example_abc123) = [(7, ''Ada'')] \<and>
   pendingQuestions (handleMessage ''42'' reply_to_abc123 example_abc123) ''abc123'' = None \<and>
   pendingQuestions (handleMessage ''42'' reply_to_abc123 example_abc123) ''82mvyr'' = Some 0 \<and>
   pendingQuestions (handleMessage ''42'' reply_to_abc123 example_abc123) ''5xk7wp'' = Some 1"
proof -
  have a: "pendingQuestions example_abc123 ''abc123'' = Some 7"
    by (simp add: example_abc123_def)
  have b: "toString (msg_chat_id reply_to_abc123) = ''42''"
    by (simp add: reply_to_abc123_def toString_42)
  have c: "msg_text reply_to_abc123 = Some ''Ada''" by (simp add: reply_to_abc123_def)
  have d: "msg_reply_to_text reply_to_abc123 = Some (outbound_text ''abc123'' ''What is your name?'')"
    by (simp add: reply_to_abc123_def)
  have e: "resolver_calls example_abc123 = []"
    by (simp add: example_abc123_def example_both_eq)
  have f: "pendingQuestions example_abc123 ''82mvyr'' = Some 0"
    "pendingQuestions example_abc123 ''5xk7wp'' = Some 1"
    by (simp_all add: example_abc123_def example_both_eq)
  show ?thesis
    using threaded_reply_resolves_abc123 [OF a b c d] e f by simp
qed

subsection \<open>C5: every resolver is called at most once\<close>

lemma live_resolvers_initial: "live_resolvers initial_engine"
  by (simp add: live_resolvers_def initial_engine_def)

lemma live_resolvers_send:
  assumes "live_resolvers s" and "ask_user_send c rendered question s = Inr s'"
  shows "live_resolvers s'"
proof -
  from assms(2) have "pendingQuestions s' = pendingQuestions s"
    "next_promise s' = next_promise s" "resolver_calls s' = resolver_calls s"
    by (auto simp add: ask_user_send_def Let_def split: if_splits)
  with assms(1) show ?thesis by (simp add: live_resolvers_def)
qed

lemma live_resolvers_register:
  assumes "live_resolvers s" and "ask_user_register questionId s = (resolve, s')"
  shows "live_resolvers s'"
proof -
  from assms(2) have s': "pendingQuestions s' = (pendingQuestions s)(questionId \<mapsto> next_promise s)"
    "next_promise s' = Suc (next_promise s)" "resolver_calls s' = resolver_calls s"
    by (auto simp add: ask_user_register_def Let_def)
  have old: "\<And>k r. pendingQuestions s k = Some r \<Longrightarrow>
      r < next_promise s \<and> r \<notin> fst ` set (resolver_calls s)"
    using assms(1) unfolding live_resolvers_def by blast
  have inj: "\<And>k k' r. pendingQuestions s k = Some r \<Longrightarrow> pendingQuestions s k' = Some r \<Longrightarrow> k = k'"
    using assms(1) unfolding live_resolvers_def by blast
  have calls: "distinct (map fst (resolver_calls s))"
    "\<And>r. r \<in> fst ` set (resolver_calls s) \<Longrightarrow> r < next_promise s"
    using assms(1) unfolding live_resolvers_def by blast+
  have fresh: "next_promise s \<notin> fst ` set (resolver_calls s)"
    using calls(2) by blast
  have 1: "\<forall>k r. pendingQuestions s' k = Some r \<longrightarrow>
        r < next_promise s' \<and> r \<notin> fst ` set (resolver_calls s')"
    using old fresh by (auto simp add: s' less_Suc_eq)
  have 2: "\<forall>k k' r. pendingQuestions s' k = Some r \<longrightarrow> pendingQuestions s' k' = Some r \<longrightarrow> k = k'"
  proof (intro allI impI)
    fix k k' r
    assume a: "pendingQuestions s' k = Some r" "pendingQuestions s' k' = Some r"
    show "k = k'"
    proof (cases "k = questionId"; cases "k' = questionId")
      assume "k = questionId" "k' \<noteq> questionId"
      with a have "r = next_promise s" "pendingQuestions s k' = Some r" by (simp_all add: s')
      with old show ?thesis by blast
    next
      assume "k \<noteq> questionId" "k' = questionId"
      with a have "r = next_promise s" "pendingQuestions s k = Some r" by (simp_all add: s')
      with old show ?thesis by blast
    next
      assume "k \<noteq> questionId" "k' \<noteq> questionId"
      with a show ?thesis using inj by (simp add: s')
    qed simp
  qed
  have 3: "distinct (map fst (resolver_calls s'))" using calls(1) by (simp add: s')
  have 4: "\<forall>r \<in> fst ` set (resolver_calls s'). r < next_promise s'"
    using calls(2) by (auto simp add: s' less_Suc_eq)
  show ?thesis unfolding live_resolvers_def using 1 2 3 4 by blast
qed

lemma live_resolvers_inbound:
  assumes "live_resolvers s"
  shows "live_resolvers (handleMessage c msg s)"
proof (cases rule: handleMessage_cases [of c msg s])
  case discard
  with assms show ?thesis by simp
next
  case (resolve answer q r)
  let ?s' = "handleMessage c msg s"
  have s': "pendingQuestions ?s' = (pendingQuestions s)(q := None)"
    "next_promise ?s' = next_promise s" "resolver_calls ?s' = resolver_calls s @ [(r, answer)]"
    by (simp_all add: handleMessage_resolve [OF resolve])
  have old: "\<And>k r. pendingQuestions s k = Some r \<Longrightarrow>
      r < next_promise s \<and> r \<notin> fst ` set (resolver_calls s)"
    using assms unfolding live_resolvers_def by blast
  have inj: "\<And>k k' r. pendingQuestions s k = Some r \<Longrightarrow> pendingQuestions s k' = Some r \<Longrightarrow> k = k'"
    using assms unfolding live_resolvers_def by blast
  have calls: "distinct (map fst (resolver_calls s))"
    "\<And>r. r \<in> fst ` set (resolver_calls s) \<Longrightarrow> r < next_promise s"
    using assms unfolding live_resolvers_def by blast+
  have 1: "\<forall>k r'. pendingQuestions ?s' k = Some r' \<longrightarrow>
        r' < next_promise ?s' \<and> r' \<notin> fst ` set (resolver_calls ?s')"
  proof (intro allI impI)
    fix k r'
    assume a: "pendingQuestions ?s' k = Some r'"
    then have k: "k \<noteq> q" "pendingQuestions s k = Some r'"
      by (auto simp add: s' split: if_splits)
    then have "r' \<noteq> r" using inj resolve(6) by blast
    with old [OF k(2)] show "r' < next_promise ?s' \<and> r' \<notin> fst ` set (resolver_calls ?s')"
      by (simp add: s')
  qed
  have 2: "\<forall>k k' r. pendingQuestions ?s' k = Some r \<longrightarrow> pendingQuestions ?s' k' = Some r \<longrightarrow> k = k'"
    using inj by (auto simp add: s' split: if_splits)
  have 3: "distinct (map fst (resolver_calls ?s'))"
    using calls(1) old [OF resolve(6)] by (simp add: s')
  have 4: "\<forall>r \<in> fst ` set (resolver_calls ?s'). r < next_promise ?s'"
    using calls(2) old [OF resolve(6)] by (auto simp add: s')
  show ?thesis unfolding live_resolvers_def using 1 2 3 4 by blast
qed

lemma reachable_live_resolvers: "reachable c s \<Longrightarrow> live_resolvers s"
proof (induction rule: reachable.induct)
  case start
  show ?case by (rule live_resolvers_initial)
next
  case (send s rendered question s')
  then show ?case using live_resolvers_send by blast
next
  case (register s questionId resolve s')
  then show ?case using live_resolvers_register by blast
next
  case (inbound s msg)
  then show ?case using live_resolvers_inbound by blast
qed

lemma reachable_ask_user:
  assumes "reachable c s" and "ask_user c rendered question outcome s = (result, s')"
  shows "reachable c s'"
proof (cases "ask_user_send c rendered question s")
  case (Inl e)
  with assms show ?thesis by (simp add: ask_user_def)
next
  case (Inr s1)
  then have r1: "reachable c s1" using assms(1) reachable.send by blast
  show ?thesis
  proof (cases outcome)
    case (Rejected e)
    with Inr assms(2) r1 show ?thesis by (simp add: ask_user_def)
  next
    case Delivered
    obtain resolve s2 where reg: "ask_user_register (questionId_of rendered) s1 = (resolve, s2)"
      by (cases "ask_user_register (questionId_of rendered) s1")
    with Delivered Inr assms(2) have "s' = s2" by (simp add: ask_user_def)
    with reg r1 show ?thesis using reachable.register by blast
  qed
qed

lemma reachable_example_both: "reachable ''42'' example_both"
  using reachable_ask_user [OF reachable_ask_user [OF reachable.start ask_first] ask_second] .

text \<open>
  Claim C5: in every state the engine can reach, every key of \<^verbatim>\<open>pendingQuestions\<close> maps to a
  resolver that has not been called, different keys map to different resolvers, and no
  resolver has been called twice. When a message resolves a pending question, its entry is
  gone afterwards; a second message carrying the same id in its quoted marker finds no
  entry, changes nothing and calls no resolver, so that resolver has been called exactly
  once.
\<close>

theorem resolver_invoked_at_most_once:
  assumes "reachable validatedChatId s"
    and "toString (msg_chat_id msg1) = validatedChatId"
    and "msg_text msg1 = Some answer" and "answer \<noteq> []"
    and "targetQuestionId msg1 s = Some questionId" and "questionId \<noteq> []"
    and "pendingQuestions s questionId = Some resolver"
    and "msg_reply_to_text msg2 = Some quoted" and "matchMarker quoted = Some questionId"
  shows "live_resolvers s \<and>
         live_resolvers (handleMessage validatedChatId msg1 s) \<and>
         pendingQuestions (handleMessage validatedChatId msg1 s) questionId = None \<and>
         handleMessage validatedChatId msg2 (handleMessage validatedChatId msg1 s) =
           handleMessage validatedChatId msg1 s \<and>
         length (filter (\<lambda>call. fst call = resolver)
           (resolver_calls (handleMessage validatedChatId msg2 (handleMessage validatedChatId msg1 s)))) = 1"
proof -
  let ?s1 = "handleMessage validatedChatId msg1 s"
  have live: "live_resolvers s" by (rule reachable_live_resolvers [OF assms(1)])
  have live1: "live_resolvers ?s1" by (rule live_resolvers_inbound [OF live])
  have s1: "?s1 = s\<lparr>resolver_calls := resolver_calls s @ [(resolver, answer)],
       pendingQuestions := (pendingQuestions s)(questionId := None),
       lastQuestionId := None\<rparr>"
    by (rule handleMessage_resolve [OF assms(2-7)])
  have gone: "pendingQuestions ?s1 questionId = None" by (simp add: s1)
  have again: "handleMessage validatedChatId msg2 ?s1 = ?s1"
    by (rule handleMessage_not_pending [OF threaded_target [OF assms(8,9)] gone])
  have "resolver \<notin> fst ` set (resolver_calls s)"
    using live assms(7) unfolding live_resolvers_def by blast
  then have "filter (\<lambda>call. fst call = resolver) (resolver_calls s) = []"
    by (auto simp add: filter_empty_conv)
  then have once: "length (filter (\<lambda>call. fst call = resolver) (resolver_calls ?s1)) = 1"
    by (simp add: s1)
  show ?thesis using live live1 gone again once by simp
qed

text \<open>The theorem for C5 with the same threaded reply delivered twice.\<close>

theorem resolver_invoked_at_most_once_witness:
  "live_resolvers example_both \<and>
   live_resolvers (handleMessage ''42'' reply_to_first example_both) \<and>
   pendingQuestions (handleMessage ''42'' reply_to_first example_both) ''82mvyr'' = None \<and>
   handleMessage ''42'' reply_to_first (handleMessage ''42'' reply_to_first example_both) =
     handleMessage ''42'' reply_to_first example_both \<and>
   length (filter (\<lambda>call. fst call = 0)
     (resolver_calls (handleMessage ''42'' reply_to_first
        (handleMessage ''42'' reply_to_first example_both)))) = 1"
proof -
  have a: "toString (msg_chat_id reply_to_first) = ''42''"
    by (simp add: reply_to_first_def toString_42)
  have b: "msg_text reply_to_first = Some ''yes''" by (simp add: reply_to_first_def)
  have c: "''yes'' \<noteq> []" by simp
  have d: "''82mvyr'' \<noteq> []" by simp
  have e: "pendingQuestions example_both ''82mvyr'' = Some 0" by (simp add: example_both_eq)
  have f: "msg_reply_to_text reply_to_first = Some (outbound_text ''82mvyr'' ''First?'')"
    by (simp add: reply_to_first_def)
  show ?thesis
    by (rule resolver_invoked_at_most_once
          [OF reachable_example_both a b c target_reply_to_first d e f matchMarker_first])
qed

subsection \<open>C4: a plain reply with two questions pending\<close>




text \<open>
  Two questions asked one after the other, with different ids and both sends fulfilled,
  leave \<^verbatim>\<open>lastQuestionId\<close> on the second and both pending.
\<close>

lemma two_asks_state:
  assumes "bot s0"
    and "ask_user validatedChatId rendered1 question1 Delivered s0 = (Inr resolve1, s1)"
    and "ask_user validatedChatId rendered2 question2 Delivered s1 = (Inr resolve2, s2)"
    and "questionId_of rendered1 \<noteq> questionId_of rendered2"
  shows "lastQuestionId s2 = Some (questionId_of rendered2) \<and>
         pendingQuestions s2 (questionId_of rendered1) = Some resolve1 \<and>
         pendingQuestions s2 (questionId_of rendered2) = Some resolve2"
proof -
  from assms(1,2) have s1: "resolve1 = next_promise s0"
    "s1 = s0\<lparr>lastQuestionId := Some (questionId_of rendered1),
        outbox := outbox s0 @ [(validatedChatId, outbound_text (questionId_of rendered1) question1)],
        pendingQuestions := (pendingQuestions s0)(questionId_of rendered1 \<mapsto> next_promise s0),
        next_promise := Suc (next_promise s0)\<rparr>"
    by (auto simp add: ask_user_delivered)
  then have b1: "bot s1" using assms(1) by simp
  from assms(3) b1 have s2: "resolve2 = next_promise s1"
    "s2 = s1\<lparr>lastQuestionId := Some (questionId_of rendered2),
        outbox := outbox s1 @ [(validatedChatId, outbound_text (questionId_of rendered2) question2)],
        pendingQuestions := (pendingQuestions s1)(questionId_of rendered2 \<mapsto> next_promise s1),
        next_promise := Suc (next_promise s1)\<rparr>"
    by (auto simp add: ask_user_delivered)
  show ?thesis using s1 s2 assms(4) by simp
qed



subsection \<open>C6: ids and the pending set\<close>

text \<open>
  Claim C6 says that a generated id is guaranteed to differ from every pending id.
  Counterexample to C6: with \<^verbatim>\<open>82mvyr\<close> pending, a draw whose rendering ends in the same
  characters generates \<^verbatim>\<open>82mvyr\<close> again; the call succeeds and replaces the resolver stored
  under that id, so the two calls share one id and one entry.
\<close>

theorem generated_id_may_be_pending_counterexample:
  "pendingQuestions example_first (questionId_of ''0.meeti82mvyr'') = Some 0 \<and>
   fst (ask_user ''42'' ''0.meeti82mvyr'' ''Again?'' Delivered example_first) = Inr 1 \<and>
   pendingQuestions (snd (ask_user ''42'' ''0.meeti82mvyr'' ''Again?'' Delivered example_first))
     (questionId_of ''0.meeti82mvyr'') = Some 1 \<and>
   dom (pendingQuestions (snd (ask_user ''42'' ''0.meeti82mvyr'' ''Again?'' Delivered example_first))) =
     {''82mvyr''}"
  by (simp add: ask_user_delivered example_first_eq questionId_of_def)

text \<open>
  Claim C6 as the code has it (line 191): the id is the rendering of the draw without its
  first seven characters, whatever \<^verbatim>\<open>pendingQuestions\<close> holds; \<^verbatim>\<open>ask_user\<close> stores the new
  resolver under that id, replacing the entry when the id is already pending. Two calls
  have different ids exactly when their renderings differ after the seventh character.
\<close>

theorem ask_user_id_from_draw_alone:
  assumes "bot s"
  shows "fst (ask_user validatedChatId rendered question Delivered s) = Inr (next_promise s) \<and>
         lastQuestionId (snd (ask_user validatedChatId rendered question Delivered s)) =
           Some (drop 7 rendered) \<and>
         pendingQuestions (snd (ask_user validatedChatId rendered question Delivered s)) =
           (pendingQuestions s)(drop 7 rendered \<mapsto> next_promise s)"
  using assms by (simp add: ask_user_delivered questionId_of_def)

text \<open>The theorem for C6 at a draw that ends like the one of the pending question.\<close>

theorem ask_user_id_from_draw_alone_witness:
  "pendingQuestions example_first ''82mvyr'' = Some 0 \<and>
   fst (ask_user ''42'' ''0.1b3x982mvyr'' ''Again?'' Delivered example_first) = Inr 1 \<and>
   lastQuestionId (snd (ask_user ''42'' ''0.1b3x982mvyr'' ''Again?'' Delivered example_first)) =
     Some ''82mvyr'' \<and>
   pendingQuestions (snd (ask_user ''42'' ''0.1b3x982mvyr'' ''Again?'' Delivered example_first)) =
     (pendingQuestions example_first)(''82mvyr'' \<mapsto> 1)"
proof -
  have b: "bot example_first" by (simp add: example_first_eq)
  have n: "next_promise example_first = 1" by (simp add: example_first_eq)
  have p: "pendingQuestions example_first ''82mvyr'' = Some 0" by (simp add: example_first_eq)
  show ?thesis
    using ask_user_id_from_draw_alone [OF b, of "''42''" "''0.1b3x982mvyr''" "''Again?''"] n p
    by simp
qed

subsection \<open>C7: the id through the marker\<close>

text \<open>
  An id of at least one character round-trips: a draw whose rendering has more than seven
  characters gives an id that the marker pattern reads back from the composed text.
\<close>

lemma generated_id_round_trip:
  assumes "is_radix36_fraction rendered" and "7 < length rendered"
  shows "matchMarker (outbound_text (questionId_of rendered) question) = Some (questionId_of rendered)"
proof -
  have "questionId_of rendered \<noteq> []" using assms(2) by (simp add: questionId_of_def)
  then show ?thesis using generated_id_chars [OF assms(1)] by (rule marker_round_trip)
qed

text \<open>No message removes the entry stored under the empty id.\<close>

lemma empty_id_never_resolved:
  "pendingQuestions (handleMessage c msg s) [] = pendingQuestions s []"
proof (cases rule: handleMessage_cases [of c msg s])
  case discard
  then show ?thesis by simp
next
  case (resolve answer q r)
  then show ?thesis by (simp add: handleMessage_resolve [OF resolve])
qed

text \<open>
  The question asked with that draw is stored under the empty id; neither a reply quoting
  its text nor a plain reply resolves it.
\<close>

lemma empty_id_question_unanswerable:
  "pendingQuestions example_empty_id [] = Some 0 \<and>
   handleMessage ''42'' reply_to_empty_id example_empty_id = example_empty_id \<and>
   handleMessage ''42'' plain_reply example_empty_id = example_empty_id"
proof -
  have q: "questionId_of ''0.i'' = []" by (simp add: questionId_of_def)
  have m: "matchMarker (outbound_text [] ''What is your name?'') = None"
    by (simp add: outbound_text_def is_id_char_def id_chars_def newline_def)
  have e: "example_empty_id =
     \<lparr>bot = True, pendingQuestions = [[] \<mapsto> 0], lastQuestionId = Some [],
      next_promise = 1, resolver_calls = [],
      outbox = [(''42'', outbound_text [] ''What is your name?'')]\<rparr>"
    by (simp add: example_empty_id_def ask_user_delivered initial_engine_def q)
  have t: "targetQuestionId reply_to_empty_id example_empty_id = Some []"
    by (simp add: targetQuestionId_def reply_to_empty_id_def m outbound_text_nonempty e)
  have h: "handleMessage ''42'' reply_to_empty_id example_empty_id = example_empty_id"
    by (rule handleMessage_empty_target [OF t])
  have t': "targetQuestionId plain_reply example_empty_id = Some []"
    by (simp add: target_plain_reply e)
  have h': "handleMessage ''42'' plain_reply example_empty_id = example_empty_id"
    by (rule handleMessage_empty_target [OF t'])
  show ?thesis using h h' by (simp add: e)
qed

text \<open>
  Claim C7 at the draw \<^verbatim>\<open>0.5\<close>, whose rendering in base 36 is \<^verbatim>\<open>0.i\<close>: the rendering is
  well formed, the generated id is empty, and the marker pattern finds no id in the composed
  text.
\<close>

theorem short_draw_gives_empty_id:
  "is_radix36_fraction ''0.i'' \<and>
   questionId_of ''0.i'' = [] \<and>
   matchMarker (outbound_text (questionId_of ''0.i'') ''What is your name?'') = None"
  by (simp add: is_radix36_fraction_def questionId_of_def outbound_text_def is_id_char_def
      id_chars_def newline_def)

subsection \<open>C8: the size limit\<close>

text \<open>
  Claim C8: when the archive written is larger than 2 GiB, \<^verbatim>\<open>zipProject\<close> and the
  \<^verbatim>\<open>zip_project\<close> tool end in the size-limit error, and the disk afterwards has no file at
  the output path; nothing else on the disk changes. This holds for every directory
  argument and whatever \<^verbatim>\<open>path.basename\<close> and \<^verbatim>\<open>path.join\<close> return on the platform.
\<close>

theorem zip_project_size_limit:
  assumes "bot s" and "TWO_GB < bytes"
  shows "fst (zipProject path directory cwd ignores tree (Archived bytes) disk) = Inl SizeLimitExceeded \<and>
         fst (zip_project s path directory cwd ignores tree (Archived bytes) outcome disk) =
           Inl SizeLimitExceeded \<and>
         snd (zip_project s path directory cwd ignores tree (Archived bytes) outcome disk) =
           disk(outputPath_of path (workingDir_of directory cwd) := None)"
  using assms by (simp add: zip_project_def zipProject_def Let_def)

text \<open>
  The theorem for C8 at an archive of 3 GiB, on a POSIX platform, with the directory given
  with a trailing separator.
\<close>

theorem zip_project_size_limit_witness:
  "outputPath_of posix_path (workingDir_of (Some ''/home/ada/demo/'') ''/tmp'') =
     ''/home/ada/demo/demo-project.zip'' \<and>
   fst (zip_project initial_engine posix_path (Some ''/home/ada/demo/'') ''/tmp'' no_ignore_rules
          example_tree (Archived 3221225472) Delivered Map.empty) = Inl SizeLimitExceeded \<and>
   snd (zip_project initial_engine posix_path (Some ''/home/ada/demo/'') ''/tmp'' no_ignore_rules
          example_tree (Archived 3221225472) Delivered Map.empty)
     ''/home/ada/demo/demo-project.zip'' = None"
proof -
  have b: "bot initial_engine" by (simp add: initial_engine_def)
  have t: "TWO_GB < 3221225472" by (simp add: TWO_GB_def)
  have p: "outputPath_of posix_path (workingDir_of (Some ''/home/ada/demo/'') ''/tmp'') =
      ''/home/ada/demo/demo-project.zip''"
    by (simp add: outputPath_of_def workingDir_of_def posix_path_def posix_join_def
        posix_basename_def posix_normalize_def)
  show ?thesis
    using zip_project_size_limit [OF b t, of posix_path "Some ''/home/ada/demo/''" "''/tmp''"
        no_ignore_rules example_tree Map.empty Delivered]
    by (simp add: p)
qed

subsection \<open>C9: what the archive holds\<close>

lemma all_files_prefix: "p \<in> set (all_files rel tree) \<Longrightarrow> prefix rel p"
proof (induction rel tree rule: all_files.induct)
  case (1 rel)
  then show ?case by simp
next
  case (2 rel name rest)
  then show ?case by (auto simp add: relativePath_of_def)
next
  case (3 rel name sub rest)
  have "prefix rel (relativePath_of rel name)" by (simp add: relativePath_of_def)
  with 3 show ?case using prefix_order.trans by auto
qed

text \<open>
  The archive holds, in the order of the walk, the files whose path relative to the working
  directory does not start with the four characters \<^verbatim>\<open>.git\<close> and is not ignored.
\<close>

lemma addFilesFromDirectory_characterisation:
  "addFilesFromDirectory ignores rel tree =
     filter (\<lambda>p. \<not> prefix ''.git'' p \<and> \<not> ignores p) (all_files rel tree)"
proof (induction rel tree rule: all_files.induct)
  case (1 rel)
  show ?case by simp
next
  case (2 rel name rest)
  then show ?case by simp
next
  case (3 rel name sub rest)
  show ?case
  proof (cases "prefix ''.git'' (relativePath_of rel name)")
    case True
    then have "\<And>p. p \<in> set (all_files (relativePath_of rel name) sub) \<Longrightarrow> prefix ''.git'' p"
      using all_files_prefix prefix_order.trans by blast
    then have "filter (\<lambda>p. \<not> prefix ''.git'' p \<and> \<not> ignores p)
        (all_files (relativePath_of rel name) sub) = []"
      by (simp add: filter_empty_conv)
    with True 3 show ?thesis by simp
  next
    case False
    with 3 show ?thesis by simp
  qed
qed

text \<open>
  Claim C9 at a project with a \<^verbatim>\<open>.git\<close> directory, a \<^verbatim>\<open>.gitattributes\<close> file and a
  \<^verbatim>\<open>.github\<close> directory, and no ignore rules: the archive leaves out the two latter as
  well, which are neither ignored nor the \<^verbatim>\<open>.git\<close> directory.
\<close>

theorem git_prefix_excludes_more_than_git_directory:
  "all_files [] example_tree =
     [''.git/HEAD'', ''.gitattributes'', ''.github/workflows/ci.yml'', ''src/index.ts'', ''README.md''] \<and>
   addFilesFromDirectory no_ignore_rules [] example_tree = [''src/index.ts'', ''README.md'']"
  by (simp add: example_tree_def relativePath_of_def no_ignore_rules_def)

subsection \<open>C10: a rejected send\<close>





end
